theory Spec2Isabelle
  imports Complex_Main "HOL-Library.Word" "HOL-Library.AList"
begin

section \<open>Common types\<close>

text \<open>
  Instants of \<^verbatim>\<open>time.Time\<close> and spans of \<^verbatim>\<open>time.Duration\<close> are counted in
  nanoseconds. \<^verbatim>\<open>Duration\<close> is an \<^verbatim>\<open>int64\<close>; \<^verbatim>\<open>Time.Sub\<close> saturates at its bounds.
\<close>

type_synonym Time = int
type_synonym Duration = int

definition maxDuration :: Duration where
  "maxDuration = 2 ^ 63 - 1"

definition minDuration :: Duration where
  "minDuration = - (2 ^ 63)"

definition time_Sub :: "Time \<Rightarrow> Time \<Rightarrow> Duration" where
  "time_Sub t u =
     (let d = t - u in
      if d > maxDuration then maxDuration
      else if d < minDuration then minDuration
      else d)"

text \<open>
  A \<^verbatim>\<open>float64\<close> is a finite number, an infinity or NaN. Only the order is used by
  the code modelled here; every comparison with NaN is false, as in IEEE 754.
\<close>

datatype float64 = Finite real | PosInf | NegInf | NaN

fun f64_lt :: "float64 \<Rightarrow> float64 \<Rightarrow> bool" where
  "f64_lt NaN _ = False"
| "f64_lt _ NaN = False"
| "f64_lt (Finite a) (Finite b) = (a < b)"
| "f64_lt _ NegInf = False"
| "f64_lt NegInf _ = True"
| "f64_lt PosInf _ = False"
| "f64_lt (Finite a) PosInf = True"

fun f64_le :: "float64 \<Rightarrow> float64 \<Rightarrow> bool" where
  "f64_le NaN _ = False"
| "f64_le _ NaN = False"
| "f64_le (Finite a) (Finite b) = (a \<le> b)"
| "f64_le NegInf _ = True"
| "f64_le _ PosInf = True"
| "f64_le PosInf _ = False"
| "f64_le (Finite a) NegInf = False"

text \<open>An \<^verbatim>\<open>error\<close> built by \<^verbatim>\<open>errors.New\<close> carries its message.\<close>

datatype error = Error string

text \<open>A natural number in decimal, as the verb \<^verbatim>\<open>%d\<close> prints it.\<close>

fun itoa :: "nat \<Rightarrow> string" where
  "itoa n =
     (if n < 10 then [char_of (48 + n)]
      else itoa (n div 10) @ [char_of (48 + n mod 10)])"

declare itoa.simps [simp del]

section \<open>The refactored loan package\<close>

definition StatusPending :: string where "StatusPending = ''pending''"
definition StatusApproved :: string where "StatusApproved = ''approved''"
definition StatusRejected :: string where "StatusRejected = ''rejected''"
definition StatusDefault :: string where "StatusDefault = ''default''"

record Loan =
  ID :: string
  Amount :: float64
  Status :: string
  InterestRate :: float64
  CustomerID :: string
  CreatedAt :: Time

text \<open>\<^verbatim>\<open>func (l *Loan) Validate() error\<close>: \<open>None\<close> is the nil error.\<close>

definition Validate :: "Loan \<Rightarrow> error option" where
  "Validate l =
     (if f64_le (Amount l) (Finite 0) then Some (Error ''loan amount must be positive'')
      else if CustomerID l = '''' then Some (Error ''customer ID is required'')
      else if f64_lt (InterestRate l) (Finite 0)
        then Some (Error ''interest rate cannot be negative'')
      else None)"

text \<open>
  \<^verbatim>\<open>func (l *Loan) Approve() error\<close> writes through its pointer receiver: the model
  returns the error together with the loan as the call leaves it.
\<close>

definition Approve :: "Loan \<Rightarrow> error option \<times> Loan" where
  "Approve l =
     (case Validate l of
        Some err \<Rightarrow> (Some err, l)
      | None \<Rightarrow> (None, l\<lparr>Status := StatusApproved\<rparr>))"

section \<open>Timers, tickers and goroutines\<close>

text \<open>
  The runtime's timers and tickers are kept in a table indexed by the order in which
  \<^verbatim>\<open>time.NewTimer\<close> and \<^verbatim>\<open>time.NewTicker\<close> made them. An entry is \<open>Active\<close>
  until \<^verbatim>\<open>Stop\<close> is called on it.
\<close>

datatype timer_state = Active | Stopped

type_synonym timers = "timer_state list"

definition NewTimer :: "timers \<Rightarrow> nat \<times> timers" where
  "NewTimer ts = (length ts, ts @ [Active])"

definition NewTicker :: "timers \<Rightarrow> nat \<times> timers" where
  "NewTicker ts = (length ts, ts @ [Active])"

definition Stop :: "nat \<Rightarrow> timers \<Rightarrow> timers" where
  "Stop i ts = (if i < length ts then ts[i := Stopped] else ts)"

text \<open>A goroutine or function is still \<open>Running\<close> (possibly blocked) or has \<open>Returned\<close>.\<close>

datatype gstatus = Running | Returned

text \<open>
  A \<^verbatim>\<open>select\<close> with a first case and a \<^verbatim>\<open>ctx.Done()\<close> case. It blocks (\<open>None\<close>)
  while neither case is ready, takes the only ready case, and when both are ready takes
  one of them, the runtime's choice being the third argument.
\<close>

datatype select_case = CaseFirst | CaseDone

definition select2 :: "bool \<Rightarrow> bool \<Rightarrow> bool \<Rightarrow> select_case option" where
  "select2 first_ready done_ready pick_done =
     (if first_ready \<and> done_ready then Some (if pick_done then CaseDone else CaseFirst)
      else if first_ready then Some CaseFirst
      else if done_ready then Some CaseDone
      else None)"

section \<open>The bounded cache of the map lesson\<close>

record CacheItem =
  item_value :: "8 word list"
  timestamp :: Time

text \<open>
  \<^verbatim>\<open>BetterCache\<close>: the map made by \<^verbatim>\<open>make\<close> (as in \<^verbatim>\<open>MapLeak\<close>) as an
  association list read through \<open>map_of\<close>, the ttl, and whether the embedded
  \<^verbatim>\<open>sync.RWMutex\<close> is write-locked. The field \<^verbatim>\<open>value\<close> of \<^verbatim>\<open>CacheItem\<close> is
  \<open>item_value\<close> here.
\<close>

record BetterCache =
  items :: "(string \<times> CacheItem) list"
  ttl :: Duration
  locked :: bool

text \<open>
  \<^verbatim>\<open>Lock\<close> blocks while the mutex is held: in a sequential run it never returns, which
  is \<open>None\<close>. \<^verbatim>\<open>Unlock\<close> is only ever reached by the holder of the lock.
\<close>

definition Lock :: "BetterCache \<Rightarrow> BetterCache option" where
  "Lock c = (if locked c then None else Some (c\<lparr>locked := True\<rparr>))"

definition Unlock :: "BetterCache \<Rightarrow> BetterCache" where
  "Unlock c = c\<lparr>locked := False\<rparr>"


text \<open>
  The inner loop of \<^verbatim>\<open>Cleanup\<close>, \<^verbatim>\<open>for k, v := range c.items\<close>, over the keys in the
  order the runtime yields them. A key deleted earlier in the pass is not visited.
\<close>

fun sweep_loop :: "Time \<Rightarrow> Duration \<Rightarrow> string list \<Rightarrow> (string \<times> CacheItem) list \<Rightarrow> (string \<times> CacheItem) list" where
  "sweep_loop now d [] its = its"
| "sweep_loop now d (k # ks) its =
     (case map_of its k of
        None \<Rightarrow> sweep_loop now d ks its
      | Some v \<Rightarrow>
          if time_Sub now (timestamp v) > d
          then sweep_loop now d ks (AList.delete k its)
          else sweep_loop now d ks its)"

text \<open>One run of the body of \<^verbatim>\<open>for range ticker.C\<close>, \<open>now\<close> being read under the lock.\<close>

definition Cleanup_tick :: "Time \<Rightarrow> BetterCache \<Rightarrow> BetterCache option" where
  "Cleanup_tick now c =
     (case Lock c of
        None \<Rightarrow> None
      | Some c1 \<Rightarrow>
          Some (Unlock (c1\<lparr>items :=
            sweep_loop now (ttl c1) (map fst (items c1)) (items c1)\<rparr>)))"



text \<open>
  The goroutine started by \<^verbatim>\<open>Cleanup\<close>, given the instants read at the ticks it has
  received so far. A ticker's channel is never closed, so the \<^verbatim>\<open>range\<close> loop has no
  exit: the goroutine is \<open>Running\<close> after any number of ticks. The cache is \<open>None\<close>
  once a pass has blocked on the lock.
\<close>

fun Cleanup_goroutine :: "Time list \<Rightarrow> BetterCache \<Rightarrow> timers \<Rightarrow> BetterCache option \<times> gstatus \<times> timers" where
  "Cleanup_goroutine [] c ts = (Some c, Running, ts)"
| "Cleanup_goroutine (now # ticks) c ts =
     (case Cleanup_tick now c of
        None \<Rightarrow> (None, Running, ts)
      | Some c' \<Rightarrow> Cleanup_goroutine ticks c' ts)"

text \<open>
  \<^verbatim>\<open>func (c *BetterCache) Cleanup()\<close>: makes the ticker, starts the goroutine and
  returns. The result is the status of the function itself, then what the goroutine has
  done after the given ticks.
\<close>

definition Cleanup :: "Time list \<Rightarrow> BetterCache \<Rightarrow> timers \<Rightarrow> gstatus \<times> BetterCache option \<times> gstatus \<times> timers" where
  "Cleanup ticks c ts =
     (let (ticker, ts1) = NewTicker ts
      in (Returned, Cleanup_goroutine ticks c ts1))"

section \<open>The goroutine, channel and timer lessons\<close>

text \<open>
  The goroutine started by \<^verbatim>\<open>GoroutineLeakWithContext\<close> is run on the events that
  reach it: the ticker fires (\<^verbatim>\<open>ticker.C\<close> buffers one tick, a further one is dropped),
  the context it was given is cancelled, or the goroutine evaluates its \<^verbatim>\<open>select\<close>,
  with the runtime's choice should both cases be ready. The deferred
  \<^verbatim>\<open>ticker.Stop()\<close> runs when the goroutine returns.
\<close>

datatype worker_event = W_tick | W_cancel | W_select bool

record worker_state =
  w_status :: gstatus
  w_timers :: timers
  w_pending :: bool
  w_cancelled :: bool
  w_log :: "string list"

fun worker_step :: "nat \<Rightarrow> worker_event \<Rightarrow> worker_state \<Rightarrow> worker_state" where
  "worker_step ticker W_tick s =
     (if ticker < length (w_timers s) \<and> w_timers s ! ticker = Active
      then s\<lparr>w_pending := True\<rparr> else s)"
| "worker_step ticker W_cancel s = s\<lparr>w_cancelled := True\<rparr>"
| "worker_step ticker (W_select pick) s =
     (if w_status s = Running
      then (case select2 (w_pending s) (w_cancelled s) pick of
              None \<Rightarrow> s
            | Some CaseFirst \<Rightarrow> s\<lparr>w_pending := False, w_log := w_log s @ [''Working...'']\<rparr>
            | Some CaseDone \<Rightarrow> s\<lparr>w_status := Returned, w_timers := Stop ticker (w_timers s)\<rparr>)
      else s)"

definition GoroutineLeakWithContext_worker :: "timers \<Rightarrow> worker_event list \<Rightarrow> worker_state" where
  "GoroutineLeakWithContext_worker ts evs =
     (let (ticker, ts1) = NewTicker ts
      in fold (worker_step ticker) evs
           \<lparr>w_status = Running, w_timers = ts1, w_pending = False, w_cancelled = False,
            w_log = []\<rparr>)"

text \<open>
  The two goroutines of \<^verbatim>\<open>ChannelLeak\<close>, on the events that reach them: a sender
  offers a value on the unbuffered \<^verbatim>\<open>ch\<close>, the context is cancelled (by
  \<^verbatim>\<open>cancel\<close> or by its timeout), or the goroutine evaluates its receive or its
  \<^verbatim>\<open>select\<close>. The first goroutine receives without a \<^verbatim>\<open>select\<close>.
\<close>

datatype chan_event = C_send int | C_cancel | C_select bool

record chan_state =
  c_status :: gstatus
  c_offer :: "int option"
  c_cancelled :: bool
  c_printed :: "int list"

definition chan_start :: chan_state where
  "chan_start = \<lparr>c_status = Running, c_offer = None, c_cancelled = False, c_printed = []\<rparr>"

fun bad_step :: "chan_event \<Rightarrow> chan_state \<Rightarrow> chan_state" where
  "bad_step (C_send v) s = s\<lparr>c_offer := Some v\<rparr>"
| "bad_step C_cancel s = s\<lparr>c_cancelled := True\<rparr>"
| "bad_step (C_select pick) s =
     (if c_status s = Running
      then (case c_offer s of
              None \<Rightarrow> s
            | Some val \<Rightarrow>
                s\<lparr>c_status := Returned, c_offer := None, c_printed := c_printed s @ [val]\<rparr>)
      else s)"

fun good_step :: "chan_event \<Rightarrow> chan_state \<Rightarrow> chan_state" where
  "good_step (C_send v) s = s\<lparr>c_offer := Some v\<rparr>"
| "good_step C_cancel s = s\<lparr>c_cancelled := True\<rparr>"
| "good_step (C_select pick) s =
     (if c_status s = Running
      then (case select2 (c_offer s \<noteq> None) (c_cancelled s) pick of
              None \<Rightarrow> s
            | Some CaseFirst \<Rightarrow>
                (case c_offer s of
                   None \<Rightarrow> s
                 | Some val \<Rightarrow>
                     s\<lparr>c_status := Returned, c_offer := None, c_printed := c_printed s @ [val]\<rparr>)
            | Some CaseDone \<Rightarrow> s\<lparr>c_status := Returned\<rparr>)
      else s)"

definition ChannelLeak_bad :: "chan_event list \<Rightarrow> chan_state" where
  "ChannelLeak_bad evs = fold bad_step evs chan_start"

definition ChannelLeak_good :: "chan_event list \<Rightarrow> chan_state" where
  "ChannelLeak_good evs = fold good_step evs chan_start"

text \<open>
  \<^verbatim>\<open>TimerLeak\<close>. The function registers \<^verbatim>\<open>cancel\<close>, makes the first timer, starts the
  first goroutine, makes the second timer, registers its \<^verbatim>\<open>Stop\<close>, starts the second
  goroutine and blocks in \<^verbatim>\<open>select {}\<close>, which has no case and never proceeds: the
  function stays \<open>Running\<close> and its deferred calls are never run.
\<close>

datatype deferred = DeferCancel | DeferStop nat

record TimerLeak_state =
  tl_timers :: timers
  tl_cancelled :: bool
  tl_defers :: "deferred list"
  tl_main :: gstatus
  tl_g1 :: gstatus
  tl_g2 :: gstatus
  tl_out :: "string list"

definition TimerLeak_start :: "timers \<Rightarrow> TimerLeak_state" where
  "TimerLeak_start ts =
     (let (t1, ts1) = NewTimer ts;
          (t2, ts2) = NewTimer ts1
      in \<lparr>tl_timers = ts2, tl_cancelled = False, tl_defers = [DeferStop t2, DeferCancel],
          tl_main = Running, tl_g1 = Running, tl_g2 = Running, tl_out = []\<rparr>)"

text \<open>
  What happens after the function has blocked: the first goroutine's receive from
  \<^verbatim>\<open>timer.C\<close> completes, or the second goroutine evaluates its \<^verbatim>\<open>select\<close> (with
  whether \<^verbatim>\<open>timer.C\<close> has a value, and the runtime's choice).
\<close>

datatype TimerLeak_event = G1_receive | G2_select bool bool

fun TimerLeak_step :: "TimerLeak_event \<Rightarrow> TimerLeak_state \<Rightarrow> TimerLeak_state" where
  "TimerLeak_step G1_receive s =
     (if tl_g1 s = Running
      then s\<lparr>tl_g1 := Returned, tl_out := tl_out s @ [''Done!'']\<rparr>
      else s)"
| "TimerLeak_step (G2_select timer_ready pick) s =
     (if tl_g2 s = Running
      then (case select2 timer_ready (tl_cancelled s) pick of
              None \<Rightarrow> s
            | Some CaseFirst \<Rightarrow> s\<lparr>tl_out := tl_out s @ [''Good:Done!'']\<rparr>
            | Some CaseDone \<Rightarrow> s\<lparr>tl_g2 := Returned\<rparr>)
      else s)"

definition TimerLeak :: "timers \<Rightarrow> TimerLeak_event list \<Rightarrow> TimerLeak_state" where
  "TimerLeak ts evs = fold TimerLeak_step evs (TimerLeak_start ts)"

section \<open>The HTTP body lesson\<close>

text \<open>
  Response bodies are kept in a table in the order \<^verbatim>\<open>http.Get\<close> handed them out. The
  environment decides each call: whether a \<^verbatim>\<open>Get\<close> fails, and what \<^verbatim>\<open>io.ReadAll\<close>
  returns.
\<close>

datatype body_state = BodyOpen | BodyClosed

definition Body_Close :: "nat \<Rightarrow> body_state list \<Rightarrow> body_state list" where
  "Body_Close i bs = (if i < length bs then bs[i := BodyClosed] else bs)"

record http_env =
  get1 :: "error option"
  read1 :: "error + 8 word list"
  get2 :: "error option"
  read2 :: "error + 8 word list"

datatype printed = PrintError error | PrintNat nat

text \<open>
  \<^verbatim>\<open>func HTTPBodyLeak() error\<close>: the error returned, the bodies as the function
  leaves them, and what it printed. Only the second response has a deferred
  \<^verbatim>\<open>resp.Body.Close()\<close>, which runs at each return after it is registered.
\<close>

definition HTTPBodyLeak :: "http_env \<Rightarrow> error option \<times> body_state list \<times> printed list" where
  "HTTPBodyLeak env =
     (case get1 env of
        Some err \<Rightarrow> (Some err, [], [])
      | None \<Rightarrow>
          (let bs1 = [BodyOpen] in
           case read1 env of
             Inl err \<Rightarrow> (Some err, bs1, [PrintError err])
           | Inr body \<Rightarrow>
               (let out1 = [PrintNat (length body)] in
                case get2 env of
                  Some err \<Rightarrow> (Some err, bs1, out1)
                | None \<Rightarrow>
                    (let bs2 = bs1 @ [BodyOpen] in
                     case read2 env of
                       Inl err \<Rightarrow> (Some err, Body_Close 1 bs2, out1 @ [PrintError err])
                     | Inr body2 \<Rightarrow>
                         (None, Body_Close 1 bs2, out1 @ [PrintNat (length body2)])))))"

section \<open>The defer-in-loop lesson\<close>

text \<open>
  The file system as the loop sees it: the handles now open (newest first), the next
  handle \<^verbatim>\<open>os.OpenFile\<close> will hand out, the iterations whose line reached the file, and
  the errors printed. The environment gives, for iteration \<open>i\<close>, the error of
  \<^verbatim>\<open>os.OpenFile\<close> and the error of \<^verbatim>\<open>file.WriteString\<close>.
\<close>

record files =
  open_files :: "nat list"
  next_file :: nat
  lines_written :: "nat list"
  errors_printed :: "error list"

record file_env =
  open_err :: "nat \<Rightarrow> error option"
  write_err :: "nat \<Rightarrow> error option"

definition OpenFile :: "files \<Rightarrow> nat \<times> files" where
  "OpenFile fs =
     (next_file fs, fs\<lparr>open_files := next_file fs # open_files fs, next_file := Suc (next_file fs)\<rparr>)"

definition File_Close :: "nat \<Rightarrow> files \<Rightarrow> files" where
  "File_Close h fs = fs\<lparr>open_files := removeAll h (open_files fs)\<rparr>"

text \<open>
  The anonymous function called once per iteration: its deferred \<^verbatim>\<open>file.Close()\<close>
  runs when it returns, whether or not the write failed.
\<close>

definition iteration :: "file_env \<Rightarrow> nat \<Rightarrow> files \<Rightarrow> files" where
  "iteration env i fs =
     (case open_err env i of
        Some err \<Rightarrow> fs\<lparr>errors_printed := errors_printed fs @ [err]\<rparr>
      | None \<Rightarrow>
          (let (file, fs1) = OpenFile fs;
               fs2 = (case write_err env i of
                        Some err \<Rightarrow> fs1\<lparr>errors_printed := errors_printed fs1 @ [err]\<rparr>
                      | None \<Rightarrow> fs1\<lparr>lines_written := lines_written fs1 @ [i]\<rparr>)
           in File_Close file fs2))"

text \<open>\<^verbatim>\<open>for i := 0; i < 100_000; i++\<close>, from \<open>i\<close> up to the bound \<open>n\<close>.\<close>

function loop_from :: "nat \<Rightarrow> nat \<Rightarrow> file_env \<Rightarrow> files \<Rightarrow> files" where
  "loop_from i n env fs = (if i < n then loop_from (Suc i) n env (iteration env i fs) else fs)"
  by pat_completeness auto
termination
  by (relation "measure (\<lambda>(i, n, env, fs). n - i)") auto

declare loop_from.simps [simp del]

definition DeferInLoopLeak :: "file_env \<Rightarrow> files \<Rightarrow> files" where
  "DeferInLoopLeak env fs = loop_from 0 100000 env fs"

section \<open>The slice lesson\<close>

text \<open>
  A slice is a window on a backing array: the array's place in the heap, the offset of
  the slice's first element, its length and its capacity. The heap lists the arrays in
  the order \<^verbatim>\<open>make\<close> allocated them.
\<close>

record slice =
  arr :: nat
  off :: nat
  len :: nat
  cap :: nat

type_synonym heap = "int list list"

datatype panic = Panic string

definition make_slice :: "nat \<Rightarrow> heap \<Rightarrow> slice \<times> heap" where
  "make_slice n h = (\<lparr>arr = length h, off = 0, len = n, cap = n\<rparr>, h @ [replicate n 0])"

text \<open>\<^verbatim>\<open>s[lo:]\<close> panics unless \<open>0 \<le> lo \<le> len s\<close>.\<close>

definition reslice_from :: "slice \<Rightarrow> int \<Rightarrow> panic + slice" where
  "reslice_from s lo =
     (if lo < 0 \<or> lo > int (len s) then Inl (Panic ''slice bounds out of range'')
      else Inr \<lparr>arr = arr s, off = off s + nat lo, len = len s - nat lo, cap = cap s - nat lo\<rparr>)"

definition elems :: "heap \<Rightarrow> slice \<Rightarrow> int list" where
  "elems h s = take (len s) (drop (off s) (h ! arr s))"

text \<open>\<^verbatim>\<open>copy(dst, src)\<close> copies \<open>min (len dst) (len src)\<close> elements and returns that number.\<close>

definition copy_slice :: "slice \<Rightarrow> slice \<Rightarrow> heap \<Rightarrow> nat \<times> heap" where
  "copy_slice dst src h =
     (let n = min (len dst) (len src);
          vs = take n (elems h src);
          a = h ! arr dst
      in (n, h[arr dst := take (off dst) a @ vs @ drop (off dst + n) a]))"

text \<open>
  The body of \<^verbatim>\<open>SliceLeak\<close> once \<open>data\<close> is made: the reslice first assigned to
  \<open>small\<close>, the copy assigned to it next, the heap, and the length printed.
\<close>

definition SliceLeak_on :: "slice \<Rightarrow> heap \<Rightarrow> panic + (slice \<times> slice \<times> heap \<times> nat)" where
  "SliceLeak_on data h =
     (case reslice_from data (int (len data) - 3) of
        Inl p \<Rightarrow> Inl p
      | Inr small_bad \<Rightarrow>
          (let (small, h1) = make_slice 3 h in
           case reslice_from data (int (len data) - 3) of
             Inl p \<Rightarrow> Inl p
           | Inr src \<Rightarrow>
               (let (n, h2) = copy_slice small src h1
                in Inr (small_bad, small, h2, len small))))"

definition SliceLeak :: "panic + (slice \<times> slice \<times> heap \<times> nat)" where
  "SliceLeak = (let (data, h) = make_slice 1000000 [] in SliceLeak_on data h)"

section \<open>The global cache lesson\<close>

record LargeObject =
  data :: "8 word list"

text \<open>
  A \<^verbatim>\<open>*LargeObject\<close> is nil (\<open>None\<close>) or points to an object. What \<^verbatim>\<open>sync.Map\<close>
  hands back is an interface value: nil, or a \<^verbatim>\<open>*LargeObject\<close>.
\<close>

datatype iface = NilIface | LargeObjectPtr "LargeObject option"

type_synonym sync_Map = "string \<rightharpoonup> iface"

definition Store :: "string \<Rightarrow> iface \<Rightarrow> sync_Map \<Rightarrow> sync_Map" where
  "Store key v m = m(key \<mapsto> v)"

definition Load :: "string \<Rightarrow> sync_Map \<Rightarrow> iface \<times> bool" where
  "Load key m = (case m key of None \<Rightarrow> (NilIface, False) | Some v \<Rightarrow> (v, True))"

definition SetGlobalCache :: "string \<Rightarrow> LargeObject option \<Rightarrow> sync_Map \<Rightarrow> sync_Map" where
  "SetGlobalCache key v betterCache = Store key (LargeObjectPtr v) betterCache"

text \<open>
  \<^verbatim>\<open>GetGlobalCache\<close> drops the second result of \<^verbatim>\<open>Load\<close> and asserts the type
  with the one-result form \<^verbatim>\<open>value.(*LargeObject)\<close>, which panics on a nil interface.
\<close>

definition GetGlobalCache :: "string \<Rightarrow> sync_Map \<Rightarrow> panic + LargeObject option" where
  "GetGlobalCache key betterCache =
     (case fst (Load key betterCache) of
        NilIface \<Rightarrow>
          Inl (Panic ''interface conversion: interface {} is nil, not *lesson.LargeObject'')
      | LargeObjectPtr p \<Rightarrow> Inr p)"

section \<open>The leaking goroutine and the global cleanup\<close>

text \<open>
  \<^verbatim>\<open>ClosureLeak\<close> makes an object of one megabyte and prints the length of its data;
  the argument is what has been printed so far.
\<close>

definition ClosureLeak :: "printed list \<Rightarrow> printed list" where
  "ClosureLeak out =
     (let obj = \<lparr>data = replicate (1024 * 1024) 0\<rparr>
      in out @ [PrintNat (length (data obj))])"

text \<open>
  \<^verbatim>\<open>Leak\<close>; its fields \<^verbatim>\<open>id\<close> and \<^verbatim>\<open>name\<close> are \<open>leak_id\<close> and \<open>leak_name\<close>
  here.
\<close>

record Leak =
  leak_id :: int
  leak_name :: string
  birthday :: Time

text \<open>
  The goroutine of \<^verbatim>\<open>GoroutineLeak\<close>: it makes a ticker and loops on a \<^verbatim>\<open>select\<close>
  whose only case receives from \<^verbatim>\<open>ticker.C\<close>. The loop has no exit and the ticker is
  never stopped. An event is one tick received, with the two results of
  \<^verbatim>\<open>rand.Intn(1000)\<close> and the instant \<^verbatim>\<open>time.Now()\<close> read in the body.
\<close>

datatype leak_event = L_tick nat nat Time

record GoroutineLeak_state =
  gl_status :: gstatus
  gl_timers :: timers
  leakSlice :: "Leak list"
  largeString :: string
  gl_log :: "string list"
  gl_out :: "printed list"

fun GoroutineLeak_step :: "leak_event \<Rightarrow> GoroutineLeak_state \<Rightarrow> GoroutineLeak_state" where
  "GoroutineLeak_step (L_tick r1 r2 now) s =
     (let newLeak = \<lparr>leak_id = int r1, leak_name = ''Leak '' @ itoa r2, birthday = now\<rparr>;
          ls = leakSlice s @ [newLeak]
      in s\<lparr>leakSlice := ls,
           largeString := largeString s @ replicate 192 (CHR ''a''),
           gl_log := gl_log s @ [CHR 0x0A # ''Working... '' @ itoa (length ls)],
           gl_out := ClosureLeak (gl_out s)\<rparr>)"

text \<open>
  \<^verbatim>\<open>GoroutineLeak\<close> starts the goroutine and blocks in \<^verbatim>\<open>select {}\<close>: the status
  of the function itself, then the goroutine after the given ticks. The second argument
  is the package variable \<^verbatim>\<open>leakSlice\<close> as the call finds it.
\<close>

definition GoroutineLeak :: "timers \<Rightarrow> Leak list \<Rightarrow> leak_event list \<Rightarrow> gstatus \<times> GoroutineLeak_state" where
  "GoroutineLeak ts leakSlice0 evs =
     (let (ticker, ts1) = NewTicker ts
      in (Running,
          fold GoroutineLeak_step evs
            \<lparr>gl_status = Running, gl_timers = ts1, leakSlice = leakSlice0,
             largeString = [], gl_log = [], gl_out = []\<rparr>))"

text \<open>
  \<^verbatim>\<open>betterCache.Range\<close> calls \<open>f\<close> on the entries of the map and leaves the map as it
  is; the function \<^verbatim>\<open>cleanup\<close> passes one that only returns true.
\<close>

definition Range :: "(string \<Rightarrow> iface \<Rightarrow> bool) \<Rightarrow> sync_Map \<Rightarrow> sync_Map" where
  "Range f m = m"

text \<open>
  The goroutine started by \<^verbatim>\<open>cleanup\<close>, after the given number of ticks, and
  \<^verbatim>\<open>cleanup\<close> itself, which makes the ticker, starts the goroutine and returns. As in
  \<^verbatim>\<open>BetterCache.Cleanup\<close> the \<^verbatim>\<open>range\<close> over \<^verbatim>\<open>ticker.C\<close> has no exit.
\<close>

fun cleanup_goroutine :: "nat \<Rightarrow> sync_Map \<Rightarrow> timers \<Rightarrow> sync_Map \<times> gstatus \<times> timers" where
  "cleanup_goroutine 0 m ts = (m, Running, ts)"
| "cleanup_goroutine (Suc n) m ts = cleanup_goroutine n (Range (\<lambda>key v. True) m) ts"

definition cleanup :: "nat \<Rightarrow> sync_Map \<Rightarrow> timers \<Rightarrow> gstatus \<times> sync_Map \<times> gstatus \<times> timers" where
  "cleanup ticks m ts =
     (let (ticker, ts1) = NewTicker ts
      in (Returned, cleanup_goroutine ticks m ts1))"

section \<open>The cancellation token\<close>

text \<open>
  Modelled from the spec: the cancellation token. The lessons obtain it from
  \<^verbatim>\<open>context.WithCancel\<close> and \<^verbatim>\<open>context.WithTimeout\<close>, whose code is not part of the
  repository. The spec gives it two states, \<open>active\<close> and \<open>cancelled\<close>, an optional
  deadline fixed at creation (cancellation and timeout being one signal), \<open>cancel()\<close>,
  \<open>isCancelled()\<close> and \<open>onCancel()\<close>.
\<close>

datatype token_state = TokenActive | TokenCancelled

record Token =
  state :: token_state
  deadline :: "Time option"

text \<open>Modelled from the spec: \<open>new(timeout?)\<close>, called at the instant \<open>now\<close>.\<close>

definition Token_new :: "Duration option \<Rightarrow> Time \<Rightarrow> Token" where
  "Token_new timeout now =
     \<lparr>state = TokenActive, deadline = map_option (\<lambda>d. now + d) timeout\<rparr>"

text \<open>Modelled from the spec: \<open>cancel()\<close> and \<open>isCancelled()\<close>.\<close>

definition cancel :: "Token \<Rightarrow> Token" where
  "cancel t = t\<lparr>state := TokenCancelled\<rparr>"

definition isCancelled :: "Token \<Rightarrow> bool" where
  "isCancelled t = (state t = TokenCancelled)"

text \<open>
  Modelled from the spec: the signal of \<open>onCancel()\<close> has fired exactly when the token
  is cancelled.
\<close>

definition onCancel :: "Token \<Rightarrow> bool" where
  "onCancel t = isCancelled t"

text \<open>
  Modelled from the spec: the clock reaching \<open>now\<close> cancels a token whose deadline has
  passed.
\<close>

definition clock :: "Time \<Rightarrow> Token \<Rightarrow> Token" where
  "clock now t =
     (case deadline t of
        None \<Rightarrow> t
      | Some d \<Rightarrow> if d \<le> now then cancel t else t)"

text \<open>
  Modelled from the spec: everything a holder of the token, or the passing of time, can
  do to it.
\<close>

datatype token_op = Op_cancel | Op_isCancelled | Op_onCancel | Op_clock Time

fun token_step :: "token_op \<Rightarrow> Token \<Rightarrow> Token" where
  "token_step Op_cancel t = cancel t"
| "token_step Op_isCancelled t = t"
| "token_step Op_onCancel t = t"
| "token_step (Op_clock now) t = clock now t"

section \<open>The supervisor\<close>

text \<open>
  Modelled from the spec: the registry/supervisor and its supervised tasks. The
  repository has no supervisor, no task registry and no \<open>shutdown\<close>; the lessons start
  bare goroutines. The spec gives a task an id, a start time, the one token it observes
  and the states \<open>created\<close>, \<open>running\<close>, \<open>completed\<close> and \<open>cancelled\<close>, the last two
  final. Time is counted in scheduling quanta. How a task's work reacts to its token is
  its \<open>quanta_left\<close>: the quanta it still needs, once the token is cancelled, to reach
  its next check of the token; \<open>None\<close> for work that never looks at the token.
\<close>

datatype task_state = TaskCreated | TaskRunning | TaskCompleted | TaskCancelled

record SupervisedTask =
  task_id :: nat
  startedAt :: Time
  task_token :: Token
  task_state :: task_state
  quanta_left :: "nat option"

text \<open>
  Modelled from the spec: the terminal states, and one quantum of a task. Terminal states
  are final; a running task reacts to its token only once the token is cancelled.
\<close>

definition terminal :: "SupervisedTask \<Rightarrow> bool" where
  "terminal t = (task_state t = TaskCompleted \<or> task_state t = TaskCancelled)"

definition task_step :: "SupervisedTask \<Rightarrow> SupervisedTask" where
  "task_step t =
     (if terminal t then t
      else if isCancelled (task_token t)
      then (case quanta_left t of
              None \<Rightarrow> t
            | Some 0 \<Rightarrow> t\<lparr>task_state := TaskCancelled\<rparr>
            | Some (Suc n) \<Rightarrow> t\<lparr>quanta_left := Some n\<rparr>)
      else t)"

text \<open>
  Modelled from the spec: the ids of the tasks not yet terminal, and the cancelling of
  every token the supervisor owns.
\<close>

definition still_running :: "SupervisedTask list \<Rightarrow> nat list" where
  "still_running ts = map task_id (filter (\<lambda>t. \<not> terminal t) ts)"

definition cancel_all :: "SupervisedTask list \<Rightarrow> SupervisedTask list" where
  "cancel_all ts = map (\<lambda>t. t\<lparr>task_token := cancel (task_token t)\<rparr>) ts"

text \<open>
  Modelled from the spec: \<open>shutdown(gracePeriod)\<close> cancels every token and then waits
  for the tasks, for at most the quanta left of the grace period. The result is the tasks
  as they end up, the ids reported as still running, and the quanta waited.
\<close>

fun await :: "nat \<Rightarrow> nat \<Rightarrow> SupervisedTask list \<Rightarrow> SupervisedTask list \<times> nat list \<times> nat" where
  "await 0 elapsed ts = (ts, still_running ts, elapsed)"
| "await (Suc n) elapsed ts =
     (if still_running ts = [] then (ts, [], elapsed)
      else await n (Suc elapsed) (map task_step ts))"

definition shutdown :: "nat \<Rightarrow> SupervisedTask list \<Rightarrow> SupervisedTask list \<times> nat list \<times> nat" where
  "shutdown gracePeriod ts = await gracePeriod 0 (cancel_all ts)"

section \<open>Invariants and well-formedness\<close>

text \<open>What holds of \<^verbatim>\<open>TimerLeak\<close> started on the timer table \<open>ts\<close>, whatever happens next.\<close>

definition tl_inv :: "timers \<Rightarrow> TimerLeak_state \<Rightarrow> bool" where
  "tl_inv ts s =
     (tl_main s = Running \<and> tl_timers s = ts @ [Active, Active]
      \<and> tl_defers s = [DeferStop (Suc (length ts)), DeferCancel]
      \<and> \<not> tl_cancelled s \<and> tl_g2 s = Running)"

text \<open>
  A task that is not terminal and whose work will not have checked its token within
  \<open>g\<close> quanta of the cancellation.
\<close>

definition straggler :: "nat \<Rightarrow> SupervisedTask \<Rightarrow> bool" where
  "straggler g t =
     (\<not> terminal t \<and> (case quanta_left t of None \<Rightarrow> True | Some q \<Rightarrow> g \<le> q))"

text \<open>A file table is well formed when every open handle was handed out before.\<close>

definition fresh :: "files \<Rightarrow> bool" where
  "fresh fs = list_all (\<lambda>h. h < next_file fs) (open_files fs)"

text \<open>A slice is well formed when its window lies inside its backing array.\<close>

definition valid_slice :: "heap \<Rightarrow> slice \<Rightarrow> bool" where
  "valid_slice h s = (arr s < length h \<and> len s \<le> cap s \<and> off s + cap s \<le> length (h ! arr s))"

section \<open>Facts about the worker goroutine\<close>

lemma worker_step_Returned:
  "w_status s = Returned \<Longrightarrow> w_status (worker_step tk e s) = Returned"
  by (cases e) (auto split: option.splits select_case.splits)

lemma worker_fold_Returned:
  "w_status s = Returned \<Longrightarrow> w_status (fold (worker_step tk) evs s) = Returned"
  by (induction evs arbitrary: s) (simp_all add: worker_step_Returned)

lemma worker_step_cancelled: "w_cancelled s \<Longrightarrow> w_cancelled (worker_step tk e s)"
  by (cases e) (auto split: option.splits select_case.splits)

lemma worker_fold_cancelled: "w_cancelled s \<Longrightarrow> w_cancelled (fold (worker_step tk) evs s)"
  by (induction evs arbitrary: s) (simp_all add: worker_step_cancelled)

lemma worker_two_selects:
  "w_cancelled s \<Longrightarrow>
   w_status (worker_step tk (W_select q) (worker_step tk (W_select p) s)) = Returned"
  by (cases "w_status s") (auto simp: select2_def split: option.splits select_case.splits)

lemma worker_returns:
  "w_status (fold (worker_step tk) (pre @ W_cancel # mid @ W_select p # W_select q # post) s)
     = Returned"
proof -
  let ?s1 = "fold (worker_step tk) mid (worker_step tk W_cancel (fold (worker_step tk) pre s))"
  have "w_cancelled ?s1" by (simp add: worker_fold_cancelled)
  then have "w_status (worker_step tk (W_select q) (worker_step tk (W_select p) ?s1)) = Returned"
    by (rule worker_two_selects)
  then show ?thesis by (simp add: worker_fold_Returned)
qed

section \<open>Stopping timers and tickers\<close>

lemma worker_inv_step:
  assumes "w_timers s = ts @ [if w_status s = Returned then Stopped else Active]"
  shows "w_timers (worker_step (length ts) e s)
           = ts @ [if w_status (worker_step (length ts) e s) = Returned then Stopped else Active]"
  using assms
  by (cases e) (auto simp: Stop_def split: option.splits select_case.splits)

lemma worker_inv_fold:
  "w_timers s = ts @ [if w_status s = Returned then Stopped else Active] \<Longrightarrow>
   w_timers (fold (worker_step (length ts)) evs s)
     = ts @ [if w_status (fold (worker_step (length ts)) evs s) = Returned
             then Stopped else Active]"
proof (induction evs arbitrary: s)
  case Nil
  then show ?case by simp
next
  case (Cons e evs)
  from Cons.prems have "w_timers (worker_step (length ts) e s)
     = ts @ [if w_status (worker_step (length ts) e s) = Returned then Stopped else Active]"
    by (rule worker_inv_step)
  then show ?case using Cons.IH by simp
qed

lemma worker_timers:
  "w_timers (GoroutineLeakWithContext_worker ts evs)
     = ts @ [if w_status (GoroutineLeakWithContext_worker ts evs) = Returned
             then Stopped else Active]"
  unfolding GoroutineLeakWithContext_worker_def NewTicker_def Let_def prod.case
  by (rule worker_inv_fold) simp

lemma worker_cancelled_returns:
  "w_status (GoroutineLeakWithContext_worker ts
      (pre @ W_cancel # mid @ W_select p # W_select q # post)) = Returned"
  by (simp add: GoroutineLeakWithContext_worker_def NewTicker_def worker_returns
      del: fold_append fold_Cons)

lemma leak_step_inv:
  "gl_status (GoroutineLeak_step e s) = gl_status s
   \<and> gl_timers (GoroutineLeak_step e s) = gl_timers s"
  by (cases e) (simp add: Let_def)

lemma leak_fold_inv:
  "gl_status (fold GoroutineLeak_step evs s) = gl_status s
   \<and> gl_timers (fold GoroutineLeak_step evs s) = gl_timers s"
  by (induction evs arbitrary: s) (simp_all add: leak_step_inv)

lemma GoroutineLeak_runs:
  "fst (GoroutineLeak ts l0 evs) = Running
   \<and> gl_status (snd (GoroutineLeak ts l0 evs)) = Running
   \<and> gl_timers (snd (GoroutineLeak ts l0 evs)) = ts @ [Active]"
  by (simp add: GoroutineLeak_def NewTicker_def leak_fold_inv)

lemma Cleanup_goroutine_runs:
  "snd (Cleanup_goroutine ticks c ts) = (Running, ts)"
  by (induction ticks arbitrary: c) (auto split: option.splits)

lemma cleanup_goroutine_runs: "snd (cleanup_goroutine n m ts) = (Running, ts)"
  by (induction n arbitrary: m) simp_all

lemma tl_inv_step: "tl_inv ts s \<Longrightarrow> tl_inv ts (TimerLeak_step e s)"
  by (cases e) (auto simp: tl_inv_def select2_def split: option.splits select_case.splits)

lemma tl_inv_fold: "tl_inv ts s \<Longrightarrow> tl_inv ts (fold TimerLeak_step evs s)"
  by (induction evs arbitrary: s) (simp_all add: tl_inv_step)

lemma tl_inv_TimerLeak: "tl_inv ts (TimerLeak ts evs)"
  unfolding TimerLeak_def
  by (rule tl_inv_fold) (simp add: tl_inv_def TimerLeak_start_def NewTimer_def)

lemma tl_first_timer:
  "take (Suc (length ts)) (tl_timers (TimerLeak ts tevs)) = ts @ [Active]
   \<and> DeferStop (length ts) \<notin> set (tl_defers (TimerLeak ts tevs))
   \<and> DeferStop (Suc (length ts)) \<in> set (tl_defers (TimerLeak ts tevs))"
  using tl_inv_TimerLeak[of ts tevs] by (simp add: tl_inv_def)

text \<open>
  Claim C1, as amended. The lessons make six timers and tickers, and this is what
  happens to each but the second timer of \<^verbatim>\<open>TimerLeak\<close>.

  The ticker of the goroutine of \<^verbatim>\<open>GoroutineLeakWithContext\<close> is stopped exactly when
  that goroutine has returned, and if its context is cancelled the goroutine does return,
  once it has evaluated its \<^verbatim>\<open>select\<close> twice in a row after the cancellation.

  The ticker of \<^verbatim>\<open>GoroutineLeak\<close> is never stopped; its goroutine and the function
  never return. \<^verbatim>\<open>BetterCache.Cleanup\<close> and \<^verbatim>\<open>cleanup\<close> each return with their
  ticker running; their goroutines never return and the ticker is running after any
  number of ticks. The first timer of \<^verbatim>\<open>TimerLeak\<close> is never stopped, whatever the
  goroutines do, and no deferred call of \<^verbatim>\<open>TimerLeak\<close> would stop it: the one
  \<^verbatim>\<open>Stop\<close> the function defers is that of its second timer.
\<close>

theorem stop_only_where_deferred:
  "w_timers (GoroutineLeakWithContext_worker ts evs)
     = ts @ [if w_status (GoroutineLeakWithContext_worker ts evs) = Returned
             then Stopped else Active]
   \<and> w_status (GoroutineLeakWithContext_worker ts
        (pre @ W_cancel # mid @ W_select p # W_select q # post)) = Returned
   \<and> fst (GoroutineLeak ts l0 levs) = Running
   \<and> gl_status (snd (GoroutineLeak ts l0 levs)) = Running
   \<and> gl_timers (snd (GoroutineLeak ts l0 levs)) = ts @ [Active]
   \<and> fst (Cleanup ticks c ts) = Returned
   \<and> snd (snd (Cleanup ticks c ts)) = (Running, ts @ [Active])
   \<and> fst (cleanup n m ts) = Returned
   \<and> snd (snd (cleanup n m ts)) = (Running, ts @ [Active])
   \<and> take (Suc (length ts)) (tl_timers (TimerLeak ts tevs)) = ts @ [Active]
   \<and> DeferStop (length ts) \<notin> set (tl_defers (TimerLeak ts tevs))
   \<and> DeferStop (Suc (length ts)) \<in> set (tl_defers (TimerLeak ts tevs))"
proof -
  have c: "fst (Cleanup ticks c ts) = Returned
     \<and> snd (snd (Cleanup ticks c ts)) = (Running, ts @ [Active])"
    by (simp add: Cleanup_def NewTicker_def Cleanup_goroutine_runs)
  have g: "fst (cleanup n m ts) = Returned
     \<and> snd (snd (cleanup n m ts)) = (Running, ts @ [Active])"
    by (simp add: cleanup_def NewTicker_def cleanup_goroutine_runs)
  show ?thesis
    using worker_timers[of ts evs] worker_cancelled_returns[of ts pre mid p q post]
      GoroutineLeak_runs[of ts l0 levs] c g tl_first_timer[of ts tevs]
    by (intro conjI) blast+
qed

text \<open>
  With no timer made before: the goroutine of \<^verbatim>\<open>GoroutineLeakWithContext\<close> takes a
  tick, logs, is cancelled and returns with its ticker stopped, and is running with its
  ticker active before the cancellation has come. \<^verbatim>\<open>GoroutineLeak\<close> after one tick has
  grown its slice, string and log and its ticker is active.
\<close>

theorem stop_only_where_deferred_witness:
  "GoroutineLeakWithContext_worker [] ([W_tick, W_select False] @ W_cancel # [] @
       W_select True # W_select True # [])
     = \<lparr>w_status = Returned, w_timers = [Stopped], w_pending = False, w_cancelled = True,
        w_log = [''Working...'']\<rparr>
   \<and> GoroutineLeakWithContext_worker [] [W_tick, W_select False]
     = \<lparr>w_status = Running, w_timers = [Active], w_pending = False, w_cancelled = False,
        w_log = [''Working...'']\<rparr>
   \<and> gl_timers (snd (GoroutineLeak [] [] [L_tick 7 42 5])) = [Active]
   \<and> leakSlice (snd (GoroutineLeak [] [] [L_tick 7 42 5]))
       = [\<lparr>leak_id = 7, leak_name = ''Leak 42'', birthday = 5\<rparr>]
   \<and> length (largeString (snd (GoroutineLeak [] [] [L_tick 7 42 5]))) = 192
   \<and> gl_log (snd (GoroutineLeak [] [] [L_tick 7 42 5])) = [CHR 0x0A # ''Working... 1'']
   \<and> gl_out (snd (GoroutineLeak [] [] [L_tick 7 42 5])) = [PrintNat 1048576]
   \<and> tl_timers (TimerLeak [] [G1_receive, G2_select True False]) ! 0 = Active
   \<and> tl_defers (TimerLeak [] [G1_receive, G2_select True False])
       = [DeferStop 1, DeferCancel]"
proof -
  have i: "itoa 42 = ''42''" "itoa (Suc 0) = ''1''"
    by code_simp+
  show ?thesis
    using stop_only_where_deferred
      [of "[]" "[W_tick, W_select False]" "[W_tick, W_select False]" "[]" True True "[]"
          "[]" "[L_tick 7 42 5]" "[]" "\<lparr>items = [], ttl = 60000000000, locked = False\<rparr>"
          0 Map.empty "[G1_receive, G2_select True False]"]
    by (simp add: GoroutineLeakWithContext_worker_def NewTicker_def select2_def Stop_def
        GoroutineLeak_def ClosureLeak_def i TimerLeak_def TimerLeak_start_def NewTimer_def)
qed

text \<open>
  The claim as stated fails: \<^verbatim>\<open>Cleanup\<close>, called on the cache \<^verbatim>\<open>MapLeak\<close> makes,
  has returned and its ticker is not stopped, neither at once nor after a sweep.
\<close>

theorem timers_left_running_counterexample:
  "fst (Cleanup [] \<lparr>items = [], ttl = 60000000000, locked = False\<rparr> []) = Returned
   \<and> snd (snd (snd (Cleanup [] \<lparr>items = [], ttl = 60000000000, locked = False\<rparr> [])))
       = [Active]
   \<and> Cleanup [120000000000] \<lparr>items = [], ttl = 60000000000, locked = False\<rparr> []
       = (Returned, Some \<lparr>items = [], ttl = 60000000000, locked = False\<rparr>, Running, [Active])"
  by (simp add: Cleanup_def NewTicker_def Cleanup_tick_def Lock_def Unlock_def)

section \<open>The periodic sweep\<close>













section \<open>Cancellation is permanent\<close>

lemma token_step_cancelled: "isCancelled t \<Longrightarrow> isCancelled (token_step op t)"
  by (cases op) (auto simp: isCancelled_def cancel_def clock_def split: option.splits)

lemma token_fold_cancelled: "isCancelled t \<Longrightarrow> isCancelled (fold token_step ops t)"
  by (induction ops arbitrary: t) (simp_all add: token_step_cancelled)

text \<open>
  Claim C3. Once \<open>cancel\<close> has been called on a token, \<open>isCancelled\<close> is true after
  any further calls and any passing of time, the signal of \<open>onCancel\<close> stays fired and
  the token is never \<open>active\<close> again; a second \<open>cancel\<close> changes nothing.
\<close>

theorem cancel_is_permanent:
  "isCancelled (fold token_step ops (cancel t))
   \<and> onCancel (fold token_step ops (cancel t))
   \<and> state (fold token_step ops (cancel t)) \<noteq> TokenActive
   \<and> cancel (cancel t) = cancel t"
proof -
  have "isCancelled (cancel t)" by (simp add: isCancelled_def cancel_def)
  then have "isCancelled (fold token_step ops (cancel t))" by (rule token_fold_cancelled)
  then show ?thesis by (simp add: onCancel_def isCancelled_def cancel_def)
qed

section \<open>A cancelled goroutine returns\<close>

lemma good_step_Returned: "c_status s = Returned \<Longrightarrow> c_status (good_step e s) = Returned"
  by (cases e) (auto split: option.splits select_case.splits)

lemma good_fold_Returned:
  "c_status s = Returned \<Longrightarrow> c_status (fold good_step evs s) = Returned"
  by (induction evs arbitrary: s) (simp_all add: good_step_Returned)

lemma good_step_cancelled: "c_cancelled s \<Longrightarrow> c_cancelled (good_step e s)"
  by (cases e) (auto split: option.splits select_case.splits)

lemma good_fold_cancelled: "c_cancelled s \<Longrightarrow> c_cancelled (fold good_step evs s)"
  by (induction evs arbitrary: s) (simp_all add: good_step_cancelled)

lemma good_one_select:
  "c_cancelled s \<Longrightarrow> c_status (good_step (C_select p) s) = Returned"
  by (cases "c_status s") (auto simp: select2_def split: option.splits select_case.splits)

lemma good_returns:
  "c_status (fold good_step (pre @ C_cancel # mid @ C_select p # post) s) = Returned"
proof -
  let ?s1 = "fold good_step mid (good_step C_cancel (fold good_step pre s))"
  have "c_cancelled ?s1" by (simp add: good_fold_cancelled)
  then have "c_status (good_step (C_select p) ?s1) = Returned"
    by (rule good_one_select)
  then show ?thesis by (simp add: good_fold_Returned)
qed

text \<open>
  The goroutine of the first half of \<^verbatim>\<open>ChannelLeak\<close> does not watch the context: with
  no sender it is still running after any events, cancellation among them.
\<close>

lemma ChannelLeak_bad_blocks:
  "c_offer s = None \<Longrightarrow> c_status s = Running \<Longrightarrow> list_all (\<lambda>e. \<forall>v. e \<noteq> C_send v) evs \<Longrightarrow>
   c_status (fold bad_step evs s) = Running \<and> c_offer (fold bad_step evs s) = None"
proof (induction evs arbitrary: s)
  case Nil
  then show ?case by simp
next
  case (Cons e evs)
  then show ?case by (cases e) auto
qed

text \<open>
  Claim C4. A \<^verbatim>\<open>select\<close> with a \<^verbatim>\<open>ctx.Done()\<close> case never blocks once the context is
  cancelled. The goroutine of \<^verbatim>\<open>GoroutineLeakWithContext\<close> has returned once, after
  the cancellation, it has evaluated its \<^verbatim>\<open>select\<close> twice with no tick in between
  (the first evaluation may still take a tick that was waiting), whatever happens before,
  in between and after. The second goroutine of \<^verbatim>\<open>ChannelLeak\<close> has returned once it
  has evaluated its \<^verbatim>\<open>select\<close> after the cancellation.
\<close>

theorem cancelled_task_returns:
  "select2 r True p \<noteq> None
   \<and> w_status (GoroutineLeakWithContext_worker ts
        (pre @ W_cancel # mid @ W_select p # W_select q # post)) = Returned
   \<and> c_status (ChannelLeak_good (cpre @ C_cancel # cmid @ C_select p # cpost)) = Returned"
  by (simp add: GoroutineLeakWithContext_worker_def NewTicker_def ChannelLeak_good_def
      worker_returns good_returns select2_def del: fold_append fold_Cons)

text \<open>
  A tick is waiting when the context is cancelled and the runtime takes the tick first:
  the goroutine returns at its next evaluation. The channel goroutine returns although
  no value was ever sent.
\<close>

theorem cancelled_task_returns_witness:
  "w_status (GoroutineLeakWithContext_worker []
      ([W_tick] @ W_cancel # [] @ W_select False # W_select False # [])) = Returned
   \<and> w_log (GoroutineLeakWithContext_worker []
      ([W_tick] @ W_cancel # [] @ W_select False # W_select False # [])) = [''Working...'']
   \<and> ChannelLeak_good ([] @ C_cancel # [] @ C_select False # [])
       = \<lparr>c_status = Returned, c_offer = None, c_cancelled = True, c_printed = []\<rparr>
   \<and> c_status (ChannelLeak_bad ([] @ C_cancel # [] @ C_select False # [])) = Running"
  using cancelled_task_returns
    [of True False "[]" "[W_tick]" "[]" False "[]" "[]" "[]" "[]"]
  by (simp add: GoroutineLeakWithContext_worker_def NewTicker_def ChannelLeak_good_def
      ChannelLeak_bad_def chan_start_def select2_def)

section \<open>Looking up the global cache\<close>

text \<open>
  Claim C5, on the code. \<^verbatim>\<open>GetGlobalCache\<close> on a key that was never stored does not
  return nil: the type assertion on the nil interface panics, on the empty cache and
  next to a stored key alike. A stored key gives back the pointer stored.
\<close>

theorem GetGlobalCache_absent_panics:
  "GetGlobalCache ''missing'' Map.empty
     = Inl (Panic ''interface conversion: interface {} is nil, not *lesson.LargeObject'')
   \<and> GetGlobalCache ''missing'' (SetGlobalCache ''key'' (Some \<lparr>data = [0, 0]\<rparr>) Map.empty)
     = Inl (Panic ''interface conversion: interface {} is nil, not *lesson.LargeObject'')
   \<and> GetGlobalCache ''key'' (SetGlobalCache ''key'' (Some \<lparr>data = [0, 0]\<rparr>) Map.empty)
     = Inr (Some \<lparr>data = [0, 0]\<rparr>)"
  by (simp add: GetGlobalCache_def Load_def SetGlobalCache_def Store_def)

section \<open>Closing response bodies\<close>

text \<open>
  Claim C6, as amended. \<^verbatim>\<open>HTTPBodyLeak\<close> closes the body of its second response on
  every path that returns after the second \<^verbatim>\<open>http.Get\<close> succeeded, whether reading it
  succeeds or fails. The body of the first response, once acquired, is open on every
  path by which the function returns.
\<close>

theorem second_body_closed:
  "(case HTTPBodyLeak env of (err, bs, out) \<Rightarrow>
      length bs \<le> 2
      \<and> (get1 env = None) = (1 \<le> length bs)
      \<and> (get1 env = None \<and> (\<exists>b. read1 env = Inr b) \<and> get2 env = None) = (length bs = 2)
      \<and> (1 \<le> length bs \<longrightarrow> bs ! 0 = BodyOpen)
      \<and> (length bs = 2 \<longrightarrow> bs ! 1 = BodyClosed))"
  by (auto simp: HTTPBodyLeak_def Body_Close_def Let_def split: option.splits sum.splits)

text \<open>Both responses arrive and reading the second one fails: it is closed all the same.\<close>

theorem second_body_closed_witness:
  "HTTPBodyLeak \<lparr>get1 = None, read1 = Inr [1, 2], get2 = None,
                 read2 = Inl (Error ''unexpected EOF'')\<rparr>
     = (Some (Error ''unexpected EOF''), [BodyOpen, BodyClosed],
        [PrintNat 2, PrintError (Error ''unexpected EOF'')])"
  using second_body_closed
    [of "\<lparr>get1 = None, read1 = Inr [1, 2], get2 = None,
          read2 = Inl (Error ''unexpected EOF'')\<rparr>"]
  by (simp add: HTTPBodyLeak_def Body_Close_def)

text \<open>
  The claim as stated fails: when every call succeeds the function returns nil with the
  first body open, and when reading the first body fails it returns the error with that
  body open.
\<close>

theorem first_body_left_open_counterexample:
  "HTTPBodyLeak \<lparr>get1 = None, read1 = Inr [1, 2], get2 = None, read2 = Inr [3]\<rparr>
     = (None, [BodyOpen, BodyClosed], [PrintNat 2, PrintNat 1])
   \<and> HTTPBodyLeak \<lparr>get1 = None, read1 = Inl (Error ''unexpected EOF''), get2 = None,
                    read2 = Inr [3]\<rparr>
     = (Some (Error ''unexpected EOF''), [BodyOpen], [PrintError (Error ''unexpected EOF'')])"
  by (simp add: HTTPBodyLeak_def Body_Close_def)

section \<open>Closing the file in each iteration\<close>

lemma iteration_open_files:
  "next_file fs \<notin> set (open_files fs) \<Longrightarrow> open_files (iteration env i fs) = open_files fs"
  by (auto simp: iteration_def OpenFile_def File_Close_def Let_def split: option.splits)

lemma iteration_fresh: "fresh fs \<Longrightarrow> fresh (iteration env i fs)"
  by (auto simp: fresh_def list_all_iff iteration_def OpenFile_def File_Close_def Let_def
      split: option.splits)

lemma fresh_next: "fresh fs \<Longrightarrow> next_file fs \<notin> set (open_files fs)"
  by (auto simp: fresh_def list_all_iff)

lemma loop_from_open_files:
  "fresh fs \<Longrightarrow>
   open_files (loop_from i n env fs) = open_files fs \<and> fresh (loop_from i n env fs)"
proof (induction i n env fs rule: loop_from.induct)
  case (1 i n env fs)
  show ?case
  proof (cases "i < n")
    case True
    have f: "fresh (iteration env i fs)" using "1.prems" by (rule iteration_fresh)
    have "open_files (iteration env i fs) = open_files fs"
      using "1.prems" by (simp add: iteration_open_files fresh_next)
    with "1.IH"[OF True f] True show ?thesis
      by (simp add: loop_from.simps[of i n])
  next
    case False
    with "1.prems" show ?thesis
      by (simp add: loop_from.simps[of i n])
  qed
qed

text \<open>
  Claim C7. In the loop of \<^verbatim>\<open>DeferInLoopLeak\<close> the file opened by an iteration is
  closed when that iteration ends, whether the write succeeded or failed: the handle it
  was given is not open afterwards, and the open handles are those open before the
  iteration. So they are the same after any number of iterations, and after all 100000.
\<close>

theorem DeferInLoopLeak_closes_each_file:
  assumes "fresh fs"
  shows "open_files (iteration env i fs) = open_files fs
     \<and> fst (OpenFile fs) \<notin> set (open_files (iteration env i fs))
     \<and> (\<forall>n. open_files (loop_from 0 n env fs) = open_files fs)
     \<and> open_files (DeferInLoopLeak env fs) = open_files fs"
proof -
  have a: "open_files (iteration env i fs) = open_files fs"
    using assms by (simp add: iteration_open_files fresh_next)
  have b: "fst (OpenFile fs) \<notin> set (open_files fs)"
    using assms by (simp add: OpenFile_def fresh_next)
  have c: "open_files (loop_from 0 n env fs) = open_files fs" for n
    using assms by (simp add: loop_from_open_files)
  show ?thesis using a b c by (simp add: DeferInLoopLeak_def)
qed

text \<open>
  Starting with no file open: an iteration whose write fails, one whose open fails and
  one that succeeds each end with no file open, and so does the whole loop.
\<close>

theorem DeferInLoopLeak_closes_each_file_witness:
  "fresh \<lparr>open_files = [], next_file = 0, lines_written = [], errors_printed = []\<rparr>
   \<and> iteration \<lparr>open_err = (\<lambda>i. if i = 1 then Some (Error ''too many open files'') else None),
                 write_err = (\<lambda>i. if i = 2 then Some (Error ''no space left'') else None)\<rparr>
        2 \<lparr>open_files = [], next_file = 0, lines_written = [], errors_printed = []\<rparr>
       = \<lparr>open_files = [], next_file = 1, lines_written = [],
          errors_printed = [Error ''no space left'']\<rparr>
   \<and> iteration \<lparr>open_err = (\<lambda>i. if i = 1 then Some (Error ''too many open files'') else None),
                 write_err = (\<lambda>i. if i = 2 then Some (Error ''no space left'') else None)\<rparr>
        1 \<lparr>open_files = [], next_file = 0, lines_written = [], errors_printed = []\<rparr>
       = \<lparr>open_files = [], next_file = 0, lines_written = [],
          errors_printed = [Error ''too many open files'']\<rparr>
   \<and> iteration \<lparr>open_err = (\<lambda>i. if i = 1 then Some (Error ''too many open files'') else None),
                 write_err = (\<lambda>i. if i = 2 then Some (Error ''no space left'') else None)\<rparr>
        0 \<lparr>open_files = [], next_file = 0, lines_written = [], errors_printed = []\<rparr>
       = \<lparr>open_files = [], next_file = 1, lines_written = [0], errors_printed = []\<rparr>
   \<and> open_files (DeferInLoopLeak
        \<lparr>open_err = (\<lambda>i. if i = 1 then Some (Error ''too many open files'') else None),
         write_err = (\<lambda>i. if i = 2 then Some (Error ''no space left'') else None)\<rparr>
        \<lparr>open_files = [], next_file = 0, lines_written = [], errors_printed = []\<rparr>) = []"
  using DeferInLoopLeak_closes_each_file
    [of "\<lparr>open_files = [], next_file = 0, lines_written = [], errors_printed = []\<rparr>"
        "\<lparr>open_err = (\<lambda>i. if i = 1 then Some (Error ''too many open files'') else None),
          write_err = (\<lambda>i. if i = 2 then Some (Error ''no space left'') else None)\<rparr>"]
  by (simp add: fresh_def iteration_def OpenFile_def File_Close_def)

section \<open>Shutting down the supervisor\<close>

lemma task_step_token: "task_token (task_step t) = task_token t"
  by (auto simp: task_step_def split: option.splits nat.splits)

lemma task_step_id: "task_id (task_step t) = task_id t"
  by (auto simp: task_step_def split: option.splits nat.splits)

lemma task_steps_id: "task_id ((task_step ^^ k) t) = task_id t"
  by (induction k) (simp_all add: task_step_id)

lemma task_steps_token: "task_token ((task_step ^^ k) t) = task_token t"
  by (induction k) (simp_all add: task_step_token)

lemma task_steps_terminal:
  "isCancelled (task_token t) \<Longrightarrow>
   terminal ((task_step ^^ k) t) = (terminal t \<or> (\<exists>q. quanta_left t = Some q \<and> q < k))"
proof (induction k arbitrary: t)
  case 0
  show ?case by simp
next
  case (Suc k)
  have tok: "isCancelled (task_token (task_step t))"
    using Suc.prems by (simp add: task_step_token)
  have "terminal ((task_step ^^ Suc k) t) = terminal ((task_step ^^ k) (task_step t))"
    by (simp add: funpow_swap1)
  also have "\<dots> = (terminal (task_step t) \<or> (\<exists>q. quanta_left (task_step t) = Some q \<and> q < k))"
    by (rule Suc.IH[OF tok])
  also have "\<dots> = (terminal t \<or> (\<exists>q. quanta_left t = Some q \<and> q < Suc k))"
    using Suc.prems
    by (cases "quanta_left t"; cases "terminal t")
       (auto simp: task_step_def terminal_def split: nat.splits)
  finally show ?case .
qed

lemma steps_straggler:
  "isCancelled (task_token t) \<Longrightarrow> (\<not> terminal ((task_step ^^ k) t)) = straggler k t"
  by (auto simp: task_steps_terminal straggler_def split: option.splits)

lemma straggler_cancel: "straggler g (t\<lparr>task_token := x\<rparr>) = straggler g t"
  by (simp add: straggler_def terminal_def)

lemma straggler_steps:
  "straggler g t
     = (\<not> terminal ((task_step ^^ g) (t\<lparr>task_token := cancel (task_token t)\<rparr>)))"
  using steps_straggler[of "t\<lparr>task_token := cancel (task_token t)\<rparr>" g]
  by (simp add: straggler_cancel isCancelled_def cancel_def)

lemma straggler_mono: "j \<le> g \<Longrightarrow> straggler g t \<Longrightarrow> straggler j t"
  by (auto simp: straggler_def split: option.splits)

lemma filter_straggler_empty:
  "j \<le> g \<Longrightarrow> map task_id (filter (straggler j) ts) = [] \<Longrightarrow>
   map task_id (filter (straggler g) ts) = []"
  by (auto simp: filter_empty_conv dest: straggler_mono)

lemma await_report:
  "fst (snd (await n e ts)) = still_running (fst (await n e ts))"
  by (induction n e ts rule: await.induct) auto

lemma await_shape:
  "\<exists>j\<le>n. await n e ts =
      (map (task_step ^^ j) ts, still_running (map (task_step ^^ j) ts), e + j)
    \<and> (j < n \<longrightarrow> still_running (map (task_step ^^ j) ts) = [])
    \<and> (\<forall>i<j. still_running (map (task_step ^^ i) ts) \<noteq> [])"
proof (induction n e ts rule: await.induct)
  case (1 elapsed ts)
  show ?case by simp
next
  case (2 n elapsed ts)
  show ?case
  proof (cases "still_running ts = []")
    case True
    then show ?thesis by (intro exI[of _ 0]) simp
  next
    case False
    from "2.IH"[OF False] obtain j where j: "j \<le> n"
      "await n (Suc elapsed) (map task_step ts) =
        (map (task_step ^^ j) (map task_step ts),
         still_running (map (task_step ^^ j) (map task_step ts)), Suc elapsed + j)"
      "j < n \<longrightarrow> still_running (map (task_step ^^ j) (map task_step ts)) = []"
      "\<forall>i<j. still_running (map (task_step ^^ i) (map task_step ts)) \<noteq> []"
      by blast
    have m: "map (task_step ^^ k) (map task_step ts) = map (task_step ^^ Suc k) ts" for k
      by (simp add: funpow_swap1)
    have before: "still_running (map (task_step ^^ i) ts) \<noteq> []" if "i < Suc j" for i
    proof (cases i)
      case 0
      with False show ?thesis by simp
    next
      case (Suc i')
      with that have "i' < j" by simp
      with j(4) have "still_running (map (task_step ^^ i') (map task_step ts)) \<noteq> []"
        by blast
      then show ?thesis unfolding m Suc .
    qed
    have aw: "await (Suc n) elapsed ts =
        (map (task_step ^^ Suc j) ts, still_running (map (task_step ^^ Suc j) ts),
         elapsed + Suc j)"
      using False j(2) unfolding m by simp
    have early: "Suc j < Suc n \<longrightarrow> still_running (map (task_step ^^ Suc j) ts) = []"
      using j(3) unfolding m by simp
    show ?thesis
      using j(1) aw early before by (intro exI[of _ "Suc j"]) blast
  qed
qed

lemma cancel_all_tokens: "list_all (\<lambda>t. isCancelled (task_token t)) (cancel_all ts)"
  by (simp add: cancel_all_def list_all_iff isCancelled_def cancel_def)

lemma still_running_steps:
  "list_all (\<lambda>t. isCancelled (task_token t)) ts \<Longrightarrow>
   still_running (map (task_step ^^ k) ts) = map task_id (filter (straggler k) ts)"
proof (induction ts)
  case Nil
  show ?case by (simp add: still_running_def)
next
  case (Cons t ts)
  then show ?case
    using steps_straggler[of t k]
    by (auto simp: still_running_def task_steps_id)
qed

lemma still_running_empty: "still_running ts = [] \<Longrightarrow> list_all terminal ts"
  by (auto simp: still_running_def filter_empty_conv list_all_iff)

lemma shutdown_shape:
  "\<exists>elapsed\<le>gracePeriod.
     shutdown gracePeriod ts =
       (map (\<lambda>t. (task_step ^^ elapsed) (t\<lparr>task_token := cancel (task_token t)\<rparr>)) ts,
        map task_id (filter (straggler gracePeriod) ts),
        elapsed)
     \<and> (elapsed < gracePeriod \<longrightarrow> filter (straggler gracePeriod) ts = [])
     \<and> (\<forall>i<elapsed. filter (straggler i) ts \<noteq> [])"
proof -
  let ?cs = "cancel_all ts"
  have tok: "list_all (\<lambda>t. isCancelled (task_token t)) ?cs" by (rule cancel_all_tokens)
  obtain j where j: "j \<le> gracePeriod"
    "await gracePeriod 0 ?cs =
       (map (task_step ^^ j) ?cs, still_running (map (task_step ^^ j) ?cs), 0 + j)"
    "j < gracePeriod \<longrightarrow> still_running (map (task_step ^^ j) ?cs) = []"
    "\<forall>i<j. still_running (map (task_step ^^ i) ?cs) \<noteq> []"
    using await_shape[of gracePeriod 0 ?cs] by blast
  have sr: "still_running (map (task_step ^^ k) ?cs) = map task_id (filter (straggler k) ts)"
    for k
    using still_running_steps[OF tok, of k]
    by (simp add: cancel_all_def filter_map o_def straggler_cancel)
  have rep: "still_running (map (task_step ^^ j) ?cs)
      = map task_id (filter (straggler gracePeriod) ts)"
  proof (cases "j < gracePeriod")
    case True
    with j(3) have "map task_id (filter (straggler j) ts) = []" by (simp add: sr)
    with j(1) have "map task_id (filter (straggler gracePeriod) ts) = []"
      by (rule filter_straggler_empty)
    with True j(3) show ?thesis by simp
  next
    case False
    with j(1) have "j = gracePeriod" by simp
    then show ?thesis by (simp add: sr)
  qed
  have early: "j < gracePeriod \<longrightarrow> filter (straggler gracePeriod) ts = []"
    using j(3) rep by auto
  have fst_eq: "map (task_step ^^ j) ?cs
      = map (\<lambda>t. (task_step ^^ j) (t\<lparr>task_token := cancel (task_token t)\<rparr>)) ts"
    by (simp add: cancel_all_def)
  have sh: "shutdown gracePeriod ts =
       (map (\<lambda>t. (task_step ^^ j) (t\<lparr>task_token := cancel (task_token t)\<rparr>)) ts,
        map task_id (filter (straggler gracePeriod) ts), j)"
  proof -
    have "await gracePeriod 0 ?cs =
       (map (task_step ^^ j) ?cs, map task_id (filter (straggler gracePeriod) ts), j)"
      using j(2) rep by simp
    then show ?thesis unfolding shutdown_def fst_eq .
  qed
  have before: "\<forall>i<j. filter (straggler i) ts \<noteq> []"
    using j(4) by (auto simp: sr)
  show ?thesis using j(1) sh early before by blast
qed

text \<open>
  Claim C8. \<open>shutdown\<close> hands back the tasks it was given, each with its token
  cancelled and run for the quanta waited, which are at most the grace period. It
  reports exactly the ids of the given tasks that, their token cancelled, have not
  reached a terminal state when the grace period has elapsed, which are the tasks not
  terminal at its return. It returns before the grace period has elapsed only when every
  task is terminal, and it does not wait on once they are: at every quantum before its
  return some task was still running. Being a recursion on the quanta left of the grace
  period, it always returns.
\<close>

theorem shutdown_reports_stragglers:
  "\<exists>elapsed\<le>gracePeriod.
     shutdown gracePeriod ts =
       (map (\<lambda>t. (task_step ^^ elapsed) (t\<lparr>task_token := cancel (task_token t)\<rparr>)) ts,
        map task_id
          (filter (\<lambda>t. \<not> terminal ((task_step ^^ gracePeriod)
                                      (t\<lparr>task_token := cancel (task_token t)\<rparr>))) ts),
        elapsed)
     \<and> (elapsed < gracePeriod \<longrightarrow>
          list_all terminal (fst (shutdown gracePeriod ts))
          \<and> fst (snd (shutdown gracePeriod ts)) = [])
     \<and> (\<forall>i<elapsed.
          still_running
            (map (\<lambda>t. (task_step ^^ i) (t\<lparr>task_token := cancel (task_token t)\<rparr>)) ts)
          \<noteq> [])
     \<and> map task_id (fst (shutdown gracePeriod ts)) = map task_id ts
     \<and> map task_token (fst (shutdown gracePeriod ts)) = map (\<lambda>t. cancel (task_token t)) ts
     \<and> list_all (\<lambda>t. isCancelled (task_token t)) (fst (shutdown gracePeriod ts))
     \<and> fst (snd (shutdown gracePeriod ts)) = still_running (fst (shutdown gracePeriod ts))"
proof -
  from shutdown_shape[of gracePeriod ts] obtain j where j: "j \<le> gracePeriod"
    "shutdown gracePeriod ts =
       (map (\<lambda>t. (task_step ^^ j) (t\<lparr>task_token := cancel (task_token t)\<rparr>)) ts,
        map task_id (filter (straggler gracePeriod) ts), j)"
    "j < gracePeriod \<longrightarrow> filter (straggler gracePeriod) ts = []"
    "\<forall>i<j. filter (straggler i) ts \<noteq> []"
    by blast
  have before: "\<forall>i<j. still_running
      (map (\<lambda>t. (task_step ^^ i) (t\<lparr>task_token := cancel (task_token t)\<rparr>)) ts) \<noteq> []"
  proof (intro allI impI)
    fix i assume "i < j"
    with j(4) have ne: "filter (straggler i) ts \<noteq> []" by blast
    have "still_running (map (task_step ^^ i) (cancel_all ts))
        = map task_id (filter (straggler i) ts)"
      using still_running_steps[OF cancel_all_tokens, of i ts]
      by (simp add: cancel_all_def filter_map o_def straggler_cancel)
    with ne show "still_running
      (map (\<lambda>t. (task_step ^^ i) (t\<lparr>task_token := cancel (task_token t)\<rparr>)) ts) \<noteq> []"
      by (simp add: cancel_all_def o_def)
  qed
  have st: "straggler gracePeriod
      = (\<lambda>t. \<not> terminal ((task_step ^^ gracePeriod)
                            (t\<lparr>task_token := cancel (task_token t)\<rparr>)))"
    by (rule ext) (rule straggler_steps)
  have rp: "fst (snd (shutdown gracePeriod ts)) = still_running (fst (shutdown gracePeriod ts))"
    unfolding shutdown_def by (rule await_report)
  have ids: "map task_id (fst (shutdown gracePeriod ts)) = map task_id ts"
    unfolding j(2) by (simp add: task_steps_id o_def)
  have toks: "map task_token (fst (shutdown gracePeriod ts))
      = map (\<lambda>t. cancel (task_token t)) ts"
    unfolding j(2) by (simp add: task_steps_token o_def)
  have canc: "list_all (\<lambda>t. isCancelled (task_token t)) (fst (shutdown gracePeriod ts))"
    unfolding j(2)
    by (simp add: list_all_iff task_steps_token isCancelled_def cancel_def)
  have early: "j < gracePeriod \<longrightarrow>
      list_all terminal (fst (shutdown gracePeriod ts))
      \<and> fst (snd (shutdown gracePeriod ts)) = []"
  proof
    assume "j < gracePeriod"
    with j(3) have e: "fst (snd (shutdown gracePeriod ts)) = []" by (simp add: j(2))
    with rp have "still_running (fst (shutdown gracePeriod ts)) = []" by simp
    then have "list_all terminal (fst (shutdown gracePeriod ts))"
      by (rule still_running_empty)
    with e show "list_all terminal (fst (shutdown gracePeriod ts))
      \<and> fst (snd (shutdown gracePeriod ts)) = []" by simp
  qed
  have sh: "shutdown gracePeriod ts =
       (map (\<lambda>t. (task_step ^^ j) (t\<lparr>task_token := cancel (task_token t)\<rparr>)) ts,
        map task_id
          (filter (\<lambda>t. \<not> terminal ((task_step ^^ gracePeriod)
                                      (t\<lparr>task_token := cancel (task_token t)\<rparr>))) ts),
        j)"
    using j(2) unfolding st .
  show ?thesis
    using j(1) sh early before ids toks canc rp by blast
qed

text \<open>
  Three running tasks and a grace period of two quanta: task 1 checks its token at once,
  task 2 needs five quanta, task 3 ignores its token. Tasks 2 and 3 are reported, and
  all three come back with their token cancelled.
\<close>

theorem shutdown_reports_stragglers_witness:
  "shutdown 2
     [\<lparr>task_id = 1, startedAt = 0, task_token = \<lparr>state = TokenActive, deadline = None\<rparr>,
       task_state = TaskRunning, quanta_left = Some 0\<rparr>,
      \<lparr>task_id = 2, startedAt = 0, task_token = \<lparr>state = TokenActive, deadline = None\<rparr>,
       task_state = TaskRunning, quanta_left = Some 5\<rparr>,
      \<lparr>task_id = 3, startedAt = 0, task_token = \<lparr>state = TokenActive, deadline = None\<rparr>,
       task_state = TaskRunning, quanta_left = None\<rparr>]
   = ([\<lparr>task_id = 1, startedAt = 0,
        task_token = \<lparr>state = TokenCancelled, deadline = None\<rparr>,
        task_state = TaskCancelled, quanta_left = Some 0\<rparr>,
       \<lparr>task_id = 2, startedAt = 0,
        task_token = \<lparr>state = TokenCancelled, deadline = None\<rparr>,
        task_state = TaskRunning, quanta_left = Some 3\<rparr>,
       \<lparr>task_id = 3, startedAt = 0,
        task_token = \<lparr>state = TokenCancelled, deadline = None\<rparr>,
        task_state = TaskRunning, quanta_left = None\<rparr>],
      [2, 3], 2)"
  using shutdown_reports_stragglers
    [of 2 "[\<lparr>task_id = 1, startedAt = 0, task_token = \<lparr>state = TokenActive, deadline = None\<rparr>,
       task_state = TaskRunning, quanta_left = Some 0\<rparr>,
      \<lparr>task_id = 2, startedAt = 0, task_token = \<lparr>state = TokenActive, deadline = None\<rparr>,
       task_state = TaskRunning, quanta_left = Some 5\<rparr>,
      \<lparr>task_id = 3, startedAt = 0, task_token = \<lparr>state = TokenActive, deadline = None\<rparr>,
       task_state = TaskRunning, quanta_left = None\<rparr>]"]
  by (simp add: shutdown_def cancel_all_def cancel_def isCancelled_def still_running_def
      terminal_def task_step_def numeral_2_eq_2 eval_nat_numeral)

section \<open>Loan approval\<close>

text \<open>
  Claim C9. \<open>Approve\<close> returns an error exactly when \<open>Validate\<close> does, that is when
  the amount is at most zero, the customer id is empty or the interest rate is negative.
  A failed \<open>Approve\<close> leaves the loan as it was; a successful one sets \<open>Status\<close> to
  \<open>StatusApproved\<close>, the string "approved", and changes no other field.
\<close>

theorem Approve_follows_Validate:
  "(fst (Approve l) \<noteq> None) = (Validate l \<noteq> None)
   \<and> (Validate l \<noteq> None) =
       (f64_le (Amount l) (Finite 0) \<or> CustomerID l = '''' \<or> f64_lt (InterestRate l) (Finite 0))
   \<and> (fst (Approve l) \<noteq> None \<longrightarrow> snd (Approve l) = l)
   \<and> (fst (Approve l) = None \<longrightarrow>
        snd (Approve l) = l\<lparr>Status := StatusApproved\<rparr> \<and> Status (snd (Approve l)) = ''approved'')"
  by (simp add: Approve_def Validate_def StatusApproved_def split: option.splits)

theorem Approve_follows_Validate_witness:
  "fst (Approve \<lparr>ID = ''L1'', Amount = Finite 10000, Status = ''pending'',
          InterestRate = Finite 0, CustomerID = ''C7'', CreatedAt = 0\<rparr>) = None
   \<and> snd (Approve \<lparr>ID = ''L1'', Amount = Finite 10000, Status = ''pending'',
          InterestRate = Finite 0, CustomerID = ''C7'', CreatedAt = 0\<rparr>)
       = \<lparr>ID = ''L1'', Amount = Finite 10000, Status = ''approved'',
          InterestRate = Finite 0, CustomerID = ''C7'', CreatedAt = 0\<rparr>
   \<and> fst (Approve \<lparr>ID = ''L2'', Amount = NaN, Status = ''pending'',
          InterestRate = Finite 1, CustomerID = '''', CreatedAt = 0\<rparr>) \<noteq> None
   \<and> snd (Approve \<lparr>ID = ''L2'', Amount = NaN, Status = ''pending'',
          InterestRate = Finite 1, CustomerID = '''', CreatedAt = 0\<rparr>)
       = \<lparr>ID = ''L2'', Amount = NaN, Status = ''pending'',
          InterestRate = Finite 1, CustomerID = '''', CreatedAt = 0\<rparr>"
  using Approve_follows_Validate
      [of "\<lparr>ID = ''L1'', Amount = Finite 10000, Status = ''pending'',
            InterestRate = Finite 0, CustomerID = ''C7'', CreatedAt = 0\<rparr>"]
    Approve_follows_Validate
      [of "\<lparr>ID = ''L2'', Amount = NaN, Status = ''pending'',
            InterestRate = Finite 1, CustomerID = '''', CreatedAt = 0\<rparr>"]
  by (simp add: Validate_def StatusApproved_def)

section \<open>Copying the tail of a slice\<close>

text \<open>
  Claim C10. For a well-formed \<open>data\<close> of at least three elements, the body of
  \<^verbatim>\<open>SliceLeak\<close> does not panic and prints 3. The slice it copies into holds the same
  elements as the reslice \<^verbatim>\<open>data[len(data)-3:]\<close>, which are the last three elements of
  \<open>data\<close>, and \<open>data\<close> itself is unchanged. The copy has length and capacity 3 and
  lies in an array of its own, allocated after every array of the heap it started from,
  while the reslice lies in the array of \<open>data\<close>.
\<close>

theorem SliceLeak_copy_equals_reslice:
  assumes "valid_slice h dat" and "3 \<le> len dat"
  shows "\<exists>small_bad small h'.
     SliceLeak_on dat h = Inr (small_bad, small, h', 3)
     \<and> elems h' small = elems h' small_bad
     \<and> elems h' small = drop (len dat - 3) (elems h dat)
     \<and> elems h' dat = elems h dat
     \<and> length (elems h' small) = 3
     \<and> len small = 3 \<and> cap small = 3
     \<and> arr small_bad = arr dat
     \<and> arr small \<noteq> arr dat
     \<and> arr small = length h"
  using assms
  apply (simp add: SliceLeak_on_def reslice_from_def make_slice_def copy_slice_def elems_def
      valid_slice_def Let_def nth_append)
  apply (simp add: nat_diff_distrib' drop_take min_def add.commute)
  apply arith
  done

text \<open>
  \<^verbatim>\<open>SliceLeak\<close> itself, on the million zeros it makes: the reslice starts at offset
  999997 of the first array, the copy is the second array.
\<close>

theorem SliceLeak_copy_equals_reslice_witness:
  "SliceLeak = Inr (\<lparr>arr = 0, off = 999997, len = 3, cap = 3\<rparr>,
                    \<lparr>arr = 1, off = 0, len = 3, cap = 3\<rparr>,
                    [replicate 1000000 0, replicate 3 0], 3)"
  using SliceLeak_copy_equals_reslice
    [of "[replicate 1000000 0]" "\<lparr>arr = 0, off = 0, len = 1000000, cap = 1000000\<rparr>"]
  by (simp add: SliceLeak_def SliceLeak_on_def reslice_from_def make_slice_def copy_slice_def
      elems_def valid_slice_def Let_def)

end
